theory Spec2Isabelle
  imports Complex_Main "HOL-Library.Monad_Syntax"
begin

section \<open>Numbers\<close>

text \<open>
  The engines compute on JavaScript numbers. The model uses exact rationals: every finite
  amount is a \<open>rat\<close>, and \<open>+\<close>, \<open>-\<close>, \<open>*\<close> are exact. The values a rational cannot
  carry (\<open>Infinity\<close>, \<open>NaN\<close>) only arise here from a division by zero, which the model
  makes a failure (\<open>None\<close>) instead of a number.
\<close>

definition Math_round :: "rat \<Rightarrow> int" where
  \<comment> \<open>\<open>Math.round\<close>: the nearest integer, a half rounding towards plus infinity\<close>
  "Math_round x = \<lfloor>x + 1 / 2\<rfloor>"


definition js_div :: "rat \<Rightarrow> nat \<Rightarrow> rat option" where
  \<comment> \<open>\<open>a / n\<close> for an array length or a count \<open>n\<close>; not a finite number when \<open>n = 0\<close>\<close>
  "js_div a n = (if n = 0 then None else Some (a / of_nat n))"

definition roundToTwoDecimals :: "rat \<Rightarrow> rat" where
  "roundToTwoDecimals amount = of_int (Math_round (amount * 100)) / 100"

section \<open>The tax calculator\<close>

record TaxableItem =
  amount :: rat
  hasSST :: bool
  hasServiceCharge :: bool
  isExempt :: bool

record TaxTotals =
  subtotal :: rat
  serviceChargeAmount :: rat
  tax_sstAmount :: rat
  totalBeforeRounding :: rat
  roundingAdjustment :: rat
  finalTotal :: rat








section \<open>The bill calculator\<close>

text \<open>
  The types of \<open>types/index.ts\<close>, with the fields the calculator reads or writes. A field
  name that several types share (\<open>id\<close>, \<open>name\<close>, \<open>sessionId\<close>, \<open>totalAmount\<close>, \<open>participants\<close>,
  and the three totals of \<open>Participant\<close>) carries a prefix in all but one of them.
\<close>

record Participant =
  p_id :: string
  p_name :: string
  p_sessionId :: string
  p_totalOwed :: rat
  p_totalPaid :: rat
  p_netAmount :: rat

record BillItem =
  item_id :: string
  item_sessionId :: string
  item_name :: string
  totalAmount :: rat
  paidBy :: string
  sharedBy :: "string list"
  hasSst :: bool
  sstAmount :: "rat option"  \<comment> \<open>the optional field \<open>sstAmount?\<close>; \<open>None\<close> is \<open>undefined\<close>\<close>
  perPersonAmount :: rat

record TaxConfig =
  sstRate :: rat
  serviceChargeRate :: rat
  applyServiceChargeToAll :: bool

record ItemContribution =
  itemId :: string
  itemName :: string
  contribution :: rat
  sstContribution :: rat
  serviceChargeContribution :: rat

text \<open>
  \<open>createEmptyResult\<close> builds balances without the \<open>participant\<close> object and without the
  legacy fields \<open>paid\<close>, \<open>owes\<close>, \<open>balance\<close>, so these four are optional in the model.
\<close>

record ParticipantBalance =
  participant :: "Participant option"
  participantId :: string
  name :: string
  totalOwed :: rat
  totalPaid :: rat
  netAmount :: rat
  itemBreakdown :: "ItemContribution list"
  paid :: "rat option"
  owes :: "rat option"
  balance :: "rat option"

record Summary =
  sum_totalAmount :: rat
  totalSst :: rat
  totalServiceCharge :: rat
  itemCount :: nat

record CalculationResult =
  result_participants :: "ParticipantBalance list"
  summary :: Summary

text \<open>Of a session the calculator reads the participants and the items only.\<close>

record Session =
  session_id :: string
  session_name :: string
  participants :: "Participant list"
  items :: "BillItem list"

definition DEFAULT_TAX_CONFIG :: TaxConfig where
  "DEFAULT_TAX_CONFIG =
     \<lparr> sstRate = 6 / 100, serviceChargeRate = 10 / 100, applyServiceChargeToAll = True \<rparr>"

definition calculateServiceCharge :: "TaxConfig \<Rightarrow> rat \<Rightarrow> rat" where
  "calculateServiceCharge cfg a = roundToTwoDecimals (a * serviceChargeRate cfg)"

definition chargedSst :: "BillItem \<Rightarrow> rat option" where
  \<comment> \<open>the test \<open>item.hasSst && item.sstAmount\<close>: the stored amount when the flag is set and
      the amount is truthy (present and not zero), \<open>None\<close> when the test fails\<close>
  "chargedSst item =
     (if hasSst item then
        (case sstAmount item of None \<Rightarrow> None | Some v \<Rightarrow> if v = 0 then None else Some v)
      else None)"

definition noContribution :: "BillItem \<Rightarrow> ItemContribution" where
  "noContribution item =
     \<lparr> itemId = item_id item, itemName = item_name item, contribution = 0,
       sstContribution = 0, serviceChargeContribution = 0 \<rparr>"

definition calculateItemContribution ::
  "TaxConfig \<Rightarrow> Participant \<Rightarrow> BillItem \<Rightarrow> nat \<Rightarrow> ItemContribution option" where
  "calculateItemContribution cfg p item totalParticipants =
     (let isSharing = (p_id p \<in> set (sharedBy item)) in
      if \<not> isSharing then Some (noContribution item)
      else
        (let shareCount = length (sharedBy item) in
         case js_div (totalAmount item) shareCount of
           None \<Rightarrow> None
         | Some share \<Rightarrow>
             (case (case chargedSst item of
                      None \<Rightarrow> Some 0
                    | Some v \<Rightarrow> map_option roundToTwoDecimals (js_div v shareCount)) of
                None \<Rightarrow> None
              | Some sstC \<Rightarrow>
                  (let serviceChargeAmount = calculateServiceCharge cfg (totalAmount item) in
                   case map_option roundToTwoDecimals
                          (if applyServiceChargeToAll cfg
                           then js_div serviceChargeAmount totalParticipants
                           else js_div serviceChargeAmount shareCount) of
                     None \<Rightarrow> None
                   | Some scC \<Rightarrow>
                       Some \<lparr> itemId = item_id item, itemName = item_name item,
                              contribution = roundToTwoDecimals share,
                              sstContribution = sstC,
                              serviceChargeContribution = scC \<rparr>))))"

text \<open>
  One round of the \<open>forEach\<close> of \<open>calculateParticipantBalance\<close>, on the accumulators
  \<open>(totalOwed, totalPaid, itemBreakdown)\<close>.
\<close>

definition balanceStep ::
  "TaxConfig \<Rightarrow> Participant \<Rightarrow> nat \<Rightarrow> rat \<times> rat \<times> ItemContribution list \<Rightarrow> BillItem
     \<Rightarrow> (rat \<times> rat \<times> ItemContribution list) option" where
  "balanceStep cfg p totalParticipants acc item =
     (case acc of (owed, payed, breakdown) \<Rightarrow>
        (case calculateItemContribution cfg p item totalParticipants of
           None \<Rightarrow> None
         | Some c \<Rightarrow>
             (let owed' = (if contribution c > 0
                           then owed + (contribution c + sstContribution c
                                         + serviceChargeContribution c)
                           else owed);
                  breakdown' = (if contribution c > 0 then breakdown @ [c] else breakdown);
                  payed' =
                    (if paidBy item = p_id p then
                       (let t1 = payed + totalAmount item;
                            t2 = (case chargedSst item of None \<Rightarrow> t1 | Some v \<Rightarrow> t1 + v)
                        in t2 + calculateServiceCharge cfg (totalAmount item))
                     else payed)
              in Some (owed', payed', breakdown'))))"

fun forEachM :: "('s \<Rightarrow> 'a \<Rightarrow> 's option) \<Rightarrow> 's \<Rightarrow> 'a list \<Rightarrow> 's option" where
  "forEachM f s [] = Some s"
| "forEachM f s (x # xs) = (case f s x of None \<Rightarrow> None | Some s' \<Rightarrow> forEachM f s' xs)"

fun mapM :: "('a \<Rightarrow> 'b option) \<Rightarrow> 'a list \<Rightarrow> 'b list option" where
  "mapM f [] = Some []"
| "mapM f (x # xs) =
     (case f x of
        None \<Rightarrow> None
      | Some y \<Rightarrow> (case mapM f xs of None \<Rightarrow> None | Some ys \<Rightarrow> Some (y # ys)))"

definition calculateParticipantBalance ::
  "TaxConfig \<Rightarrow> Participant \<Rightarrow> BillItem list \<Rightarrow> nat \<Rightarrow> ParticipantBalance option" where
  "calculateParticipantBalance cfg p its totalParticipants =
     (case forEachM (balanceStep cfg p totalParticipants) (0, 0, []) its of
        None \<Rightarrow> None
      | Some (owed, payed, breakdown) \<Rightarrow>
          (let net = roundToTwoDecimals (owed - payed) in
           Some \<lparr> participant = Some p,
                  participantId = p_id p,
                  name = p_name p,
                  totalOwed = roundToTwoDecimals owed,
                  totalPaid = roundToTwoDecimals payed,
                  netAmount = net,
                  itemBreakdown = breakdown,
                  paid = Some (roundToTwoDecimals payed),
                  owes = Some (roundToTwoDecimals owed),
                  balance = Some net \<rparr>))"

definition summaryStep :: "TaxConfig \<Rightarrow> rat \<times> rat \<times> rat \<Rightarrow> BillItem \<Rightarrow> rat \<times> rat \<times> rat" where
  "summaryStep cfg acc item =
     (case acc of (tAmount, tSst, tCharge) \<Rightarrow>
        (tAmount + totalAmount item,
         (case chargedSst item of None \<Rightarrow> tSst | Some v \<Rightarrow> tSst + v),
         tCharge + calculateServiceCharge cfg (totalAmount item)))"

definition calculateSummary :: "TaxConfig \<Rightarrow> BillItem list \<Rightarrow> Summary" where
  "calculateSummary cfg its =
     (case foldl (summaryStep cfg) (0, 0, 0) its of (tAmount, tSst, tCharge) \<Rightarrow>
        \<lparr> sum_totalAmount = roundToTwoDecimals tAmount,
          totalSst = roundToTwoDecimals tSst,
          totalServiceCharge = roundToTwoDecimals tCharge,
          itemCount = length its \<rparr>)"

definition emptyBalance :: "Participant \<Rightarrow> ParticipantBalance" where
  "emptyBalance p =
     \<lparr> participant = None, participantId = p_id p, name = p_name p,
       totalOwed = 0, totalPaid = 0, netAmount = 0, itemBreakdown = [],
       paid = None, owes = None, balance = None \<rparr>"

definition createEmptyResult :: "Participant list \<Rightarrow> CalculationResult" where
  "createEmptyResult ps =
     \<lparr> result_participants = map emptyBalance ps,
       summary = \<lparr> sum_totalAmount = 0, totalSst = 0, totalServiceCharge = 0,
                   itemCount = 0 \<rparr> \<rparr>"

definition calculateSession :: "TaxConfig \<Rightarrow> Session \<Rightarrow> CalculationResult option" where
  "calculateSession cfg session =
     (let ps = participants session; its = items session in
      if length ps = 0 \<or> length its = 0 then Some (createEmptyResult ps)
      else
        (case mapM (\<lambda>p. calculateParticipantBalance cfg p its (length ps)) ps of
           None \<Rightarrow> None
         | Some bs \<Rightarrow> Some \<lparr> result_participants = bs, summary = calculateSummary cfg its \<rparr>))"

text \<open>
  \<open>validateCalculation\<close> checks a result against the two balance invariants, with a
  tolerance of one cent. Its error messages are modelled by their kind and the amounts
  they print.
\<close>

datatype validationError =
  OwedPaidMismatch rat rat  \<comment> \<open>\<open>Total owed (..) does not match total paid (..)\<close>\<close>
| NetSumNotZero rat         \<comment> \<open>\<open>Net amounts do not sum to zero (sum: ..)\<close>\<close>

record Validation =
  isValid :: bool
  errors :: "validationError list"

definition validateCalculation :: "CalculationResult \<Rightarrow> Validation" where
  "validateCalculation result =
     (let owedSum = foldl (\<lambda>sum p. sum + totalOwed p) 0 (result_participants result);
          paidSum = foldl (\<lambda>sum p. sum + totalPaid p) 0 (result_participants result);
          errors1 = (if \<bar>owedSum - paidSum\<bar> > 1 / 100
                     then [OwedPaidMismatch owedSum paidSum] else []);
          netSum = foldl (\<lambda>sum p. sum + netAmount p) 0 (result_participants result);
          errors2 = (if \<bar>netSum\<bar> > 1 / 100 then errors1 @ [NetSumNotZero netSum] else errors1)
      in \<lparr> isValid = (length errors2 = 0), errors = errors2 \<rparr>)"

section \<open>Payment instructions\<close>

record PaymentInstruction =
  instr_from :: string
  instr_to :: string
  instr_amount :: rat

datatype fault = TypeError  \<comment> \<open>reading \<open>.name\<close> of an undefined \<open>participant\<close>\<close>

text \<open>
  The matching loop. The head of each queue is updated in place and leaves the queue once
  its amount is within a cent of zero. The queues hold copies of the balances, so here they
  are lists of values.
\<close>

partial_function (option) settleLoop ::
  "ParticipantBalance list \<Rightarrow> ParticipantBalance list \<Rightarrow> PaymentInstruction list
     \<Rightarrow> (fault + PaymentInstruction list) option" where
  "settleLoop debtors creditors instructions =
     (if length debtors > 0 \<and> length creditors > 0 then
        (let debtor = hd debtors; creditor = hd creditors;
             paymentAmount = min \<bar>netAmount debtor\<bar> (netAmount creditor)
         in case participant debtor of
              None \<Rightarrow> Some (Inl TypeError)
            | Some dp \<Rightarrow>
                (case participant creditor of
                   None \<Rightarrow> Some (Inl TypeError)
                 | Some cp \<Rightarrow>
                     (let instructions' = instructions @
                            [\<lparr> instr_from = p_name dp, instr_to = p_name cp,
                               instr_amount = roundToTwoDecimals paymentAmount \<rparr>];
                          debtor' = debtor\<lparr>netAmount := netAmount debtor + paymentAmount\<rparr>;
                          creditor' = creditor\<lparr>netAmount := netAmount creditor - paymentAmount\<rparr>
                      in settleLoop
                           (if \<bar>netAmount debtor'\<bar> < 1 / 100 then tl debtors
                            else debtor' # tl debtors)
                           (if \<bar>netAmount creditor'\<bar> < 1 / 100 then tl creditors
                            else creditor' # tl creditors)
                           instructions')))
      else Some (Inr instructions))"

definition generatePaymentInstructions ::
  "ParticipantBalance list \<Rightarrow> (fault + PaymentInstruction list) option" where
  "generatePaymentInstructions balances =
     settleLoop (filter (\<lambda>b. netAmount b < 0) balances)
                (filter (\<lambda>b. netAmount b > 0) balances) []"

section \<open>A sample session\<close>

text \<open>
  The session of the repository's calculation tests: Alice, Bob and Charlie; a pizza of 30
  paid by Alice and shared by all three, without SST; drinks of 15 paid by Bob and shared by
  Bob and Charlie, with SST (stored as \<open>15 * 0.06 = 0.9\<close>).
\<close>

definition alice :: Participant where
  "alice = \<lparr> p_id = ''1'', p_name = ''Alice'', p_sessionId = ''session1'',
             p_totalOwed = 0, p_totalPaid = 0, p_netAmount = 0 \<rparr>"

definition bob :: Participant where
  "bob = \<lparr> p_id = ''2'', p_name = ''Bob'', p_sessionId = ''session1'',
           p_totalOwed = 0, p_totalPaid = 0, p_netAmount = 0 \<rparr>"

definition charlie :: Participant where
  "charlie = \<lparr> p_id = ''3'', p_name = ''Charlie'', p_sessionId = ''session1'',
               p_totalOwed = 0, p_totalPaid = 0, p_netAmount = 0 \<rparr>"

definition pizza :: BillItem where
  "pizza = \<lparr> item_id = ''1'', item_sessionId = ''session1'', item_name = ''Pizza'',
             totalAmount = 30, paidBy = ''1'', sharedBy = [''1'', ''2'', ''3''],
             hasSst = False, sstAmount = Some 0, perPersonAmount = 10 \<rparr>"

definition drinks :: BillItem where
  "drinks = \<lparr> item_id = ''2'', item_sessionId = ''session1'', item_name = ''Drinks'',
              totalAmount = 15, paidBy = ''2'', sharedBy = [''2'', ''3''],
              hasSst = True, sstAmount = Some (9 / 10), perPersonAmount = 15 / 2 \<rparr>"

definition dinner :: Session where
  "dinner = \<lparr> session_id = ''session1'', session_name = ''Dinner'',
              participants = [alice, bob, charlie], items = [pizza, drinks] \<rparr>"


text \<open>Two balances that settle each other: Alice owes 10 and Bob has paid 10 too much.\<close>

definition aliceOwes :: ParticipantBalance where
  "aliceOwes = \<lparr> participant = Some alice, participantId = ''1'', name = ''Alice'',
                 totalOwed = 10, totalPaid = 0, netAmount = 10, itemBreakdown = [],
                 paid = Some 0, owes = Some 10, balance = Some 10 \<rparr>"

definition bobIsOwed :: ParticipantBalance where
  "bobIsOwed = \<lparr> participant = Some bob, participantId = ''2'', name = ''Bob'',
                 totalOwed = 0, totalPaid = 10, netAmount = - 10, itemBreakdown = [],
                 paid = Some 10, owes = Some 0, balance = Some (- 10) \<rparr>"

section \<open>Payment instructions on a store of objects\<close>

text \<open>
  In the source a balance is an object and an array holds references to objects:
  \<open>filter\<close> returns a new array of the same references, \<open>map(b => ({ ...b }))\<close> a new
  array of new objects, the loop writes to the \<open>netAmount\<close> of the object at the head of
  each queue, and \<open>shift\<close> removes the head of a queue in place. This second model of
  \<open>generatePaymentInstructions\<close> keeps both kinds in a store and addresses them by
  position, so that a write to an object is seen through every reference to it. The
  \<open>participant\<close> and \<open>itemBreakdown\<close> of a balance stay values inside the object: the
  function only reads them.
\<close>

record store =
  objs :: "ParticipantBalance list"  \<comment> \<open>the objects, by address\<close>
  arrs :: "nat list list"            \<comment> \<open>the arrays of object addresses, by address\<close>

definition newArray :: "store \<Rightarrow> nat list \<Rightarrow> store \<times> nat" where
  "newArray h xs = (h\<lparr>arrs := arrs h @ [xs]\<rparr>, length (arrs h))"

definition newObject :: "store \<Rightarrow> ParticipantBalance \<Rightarrow> store \<times> nat" where
  "newObject h b = (h\<lparr>objs := objs h @ [b]\<rparr>, length (objs h))"

definition filterArray :: "(ParticipantBalance \<Rightarrow> bool) \<Rightarrow> store \<Rightarrow> nat \<Rightarrow> store \<times> nat" where
  "filterArray P h a = newArray h (filter (\<lambda>r. P (objs h ! r)) (arrs h ! a))"

fun copyEach :: "store \<Rightarrow> nat list \<Rightarrow> store \<times> nat list" where
  "copyEach h [] = (h, [])"
| "copyEach h (r # rs) =
     (case newObject h (objs h ! r) of (h1, r') \<Rightarrow>
        (case copyEach h1 rs of (h2, rs') \<Rightarrow> (h2, r' # rs')))"

definition mapCopy :: "store \<Rightarrow> nat \<Rightarrow> store \<times> nat" where
  "mapCopy h a = (case copyEach h (arrs h ! a) of (h1, rs) \<Rightarrow> newArray h1 rs)"

definition setNetAmount :: "store \<Rightarrow> nat \<Rightarrow> rat \<Rightarrow> store" where
  "setNetAmount h r v = h\<lparr>objs := (objs h)[r := (objs h ! r)\<lparr>netAmount := v\<rparr>]\<rparr>"

definition shift :: "store \<Rightarrow> nat \<Rightarrow> store" where
  "shift h a = h\<lparr>arrs := (arrs h)[a := tl (arrs h ! a)]\<rparr>"

partial_function (option) settleLoop_store ::
  "store \<Rightarrow> nat \<Rightarrow> nat \<Rightarrow> PaymentInstruction list
     \<Rightarrow> (store \<times> (fault + PaymentInstruction list)) option" where
  "settleLoop_store h debtors creditors instructions =
     (if length (arrs h ! debtors) > 0 \<and> length (arrs h ! creditors) > 0 then
        (let debtor = hd (arrs h ! debtors); creditor = hd (arrs h ! creditors);
             paymentAmount = min \<bar>netAmount (objs h ! debtor)\<bar> (netAmount (objs h ! creditor))
         in case participant (objs h ! debtor) of
              None \<Rightarrow> Some (h, Inl TypeError)
            | Some dp \<Rightarrow>
                (case participant (objs h ! creditor) of
                   None \<Rightarrow> Some (h, Inl TypeError)
                 | Some cp \<Rightarrow>
                     (let instructions' = instructions @
                            [\<lparr> instr_from = p_name dp, instr_to = p_name cp,
                               instr_amount = roundToTwoDecimals paymentAmount \<rparr>];
                          h1 = setNetAmount h debtor
                                 (netAmount (objs h ! debtor) + paymentAmount);
                          h2 = setNetAmount h1 creditor
                                 (netAmount (objs h1 ! creditor) - paymentAmount);
                          h3 = (if \<bar>netAmount (objs h2 ! debtor)\<bar> < 1 / 100
                                then shift h2 debtors else h2);
                          h4 = (if \<bar>netAmount (objs h3 ! creditor)\<bar> < 1 / 100
                                then shift h3 creditors else h3)
                      in settleLoop_store h4 debtors creditors instructions')))
      else Some (h, Inr instructions))"

definition generatePaymentInstructions_store ::
  "store \<Rightarrow> nat \<Rightarrow> (store \<times> (fault + PaymentInstruction list)) option" where
  "generatePaymentInstructions_store h balances =
     (case filterArray (\<lambda>b. netAmount b < 0) h balances of (h1, negative) \<Rightarrow>
      case mapCopy h1 negative of (h2, debtors) \<Rightarrow>
      case filterArray (\<lambda>b. netAmount b > 0) h2 balances of (h3, positive) \<Rightarrow>
      case mapCopy h3 positive of (h4, creditors) \<Rightarrow>
        settleLoop_store h4 debtors creditors [])"

definition twoBalances :: store where
  "twoBalances = \<lparr> objs = [aliceOwes, bobIsOwed], arrs = [[0, 1]] \<rparr>"

section \<open>Evaluating the rounding functions\<close>

text \<open>The floor of a quotient of numerals, for the simplifier.\<close>

lemma floor_rat_numeral_div [simp]: "\<lfloor>(numeral a :: rat) / numeral b\<rfloor> = numeral a div numeral b"
  by (metis floor_divide_of_int_eq of_int_numeral)
lemma floor_rat_neg_numeral_div [simp]: "\<lfloor>- ((numeral a :: rat) / numeral b)\<rfloor> = - numeral a div numeral b"
  by (metis divide_minus_left floor_divide_of_int_eq of_int_neg_numeral of_int_numeral)
lemma floor_rat_one_div [simp]: "\<lfloor>(1 :: rat) / numeral b\<rfloor> = 1 div numeral b"
  by (metis floor_divide_of_int_eq of_int_numeral of_int_1)

section \<open>Properties of the tax calculator\<close>






section \<open>Properties of the five-sen rounding\<close>









section \<open>The calculator always returns\<close>

text \<open>
  The two divisors of \<open>calculateItemContribution\<close> are never zero inside
  \<open>calculateSession\<close>: a sharer is a member of \<open>sharedBy\<close>, and the participant count is
  only passed on when there are participants.
\<close>

lemma calculateItemContribution_returns:
  assumes "0 < n"
  shows "\<exists>c. calculateItemContribution cfg p item n = Some c"
proof (cases "p_id p \<in> set (sharedBy item)")
  case False
  then show ?thesis by (simp add: calculateItemContribution_def)
next
  case True
  then have "0 < length (sharedBy item)"
    by (cases "sharedBy item") auto
  with True assms show ?thesis
    by (simp add: calculateItemContribution_def js_div_def Let_def split: option.split)
qed

lemma balanceStep_returns:
  assumes "0 < n"
  shows "\<exists>acc'. balanceStep cfg p n acc item = Some acc'"
proof -
  obtain c where "calculateItemContribution cfg p item n = Some c"
    using calculateItemContribution_returns[OF assms] by blast
  then show ?thesis
    by (cases acc) (simp add: balanceStep_def Let_def)
qed

lemma forEachM_returns:
  assumes "\<And>s x. \<exists>s'. f s x = Some s'"
  shows "\<exists>s'. forEachM f s xs = Some s'"
proof (induction xs arbitrary: s)
  case Nil
  show ?case by simp
next
  case (Cons x xs)
  obtain s1 where "f s x = Some s1"
    using assms by blast
  with Cons show ?case by simp
qed

lemma calculateParticipantBalance_returns:
  assumes "0 < n"
  shows "\<exists>b. calculateParticipantBalance cfg p its n = Some b \<and> participant b = Some p"
proof -
  obtain s where "forEachM (balanceStep cfg p n) (0, 0, []) its = Some s"
    using forEachM_returns[of "balanceStep cfg p n"] balanceStep_returns[OF assms] by blast
  then show ?thesis
    by (cases s) (simp add: calculateParticipantBalance_def Let_def)
qed

lemma mapM_returns:
  assumes "\<And>x. \<exists>y. f x = Some y \<and> P y"
  shows "\<exists>ys. mapM f xs = Some ys \<and> length ys = length xs \<and> (\<forall>y\<in>set ys. P y)"
proof (induction xs)
  case Nil
  show ?case by simp
next
  case (Cons x xs)
  obtain y where "f x = Some y" "P y"
    using assms by blast
  with Cons show ?case by auto
qed

lemma calculateSession_returns:
  "\<exists>r. calculateSession cfg s = Some r
        \<and> length (result_participants r) = length (participants s)
        \<and> (\<forall>b\<in>set (result_participants r). netAmount b \<noteq> 0 \<longrightarrow> participant b \<noteq> None)"
proof (cases "length (participants s) = 0 \<or> length (items s) = 0")
  case True
  then show ?thesis
    by (auto simp: calculateSession_def createEmptyResult_def emptyBalance_def)
next
  case False
  then have n: "0 < length (participants s)"
    by simp
  let ?f = "\<lambda>p. calculateParticipantBalance cfg p (items s) (length (participants s))"
  have "\<exists>y. ?f p = Some y \<and> participant y \<noteq> None" for p
    using calculateParticipantBalance_returns[OF n, of cfg p "items s"] by auto
  from mapM_returns[of ?f "\<lambda>y. participant y \<noteq> None", OF this, of "participants s"]
  obtain bs where "mapM ?f (participants s) = Some bs" "length bs = length (participants s)"
    "\<forall>y\<in>set bs. participant y \<noteq> None"
    by blast
  with False show ?thesis
    by (simp add: calculateSession_def Let_def)
qed

section \<open>The sample session, evaluated\<close>

lemmas session_eval = calculateSession_def calculateParticipantBalance_def balanceStep_def
  calculateItemContribution_def calculateServiceCharge_def chargedSst_def noContribution_def
  js_div_def roundToTwoDecimals_def Math_round_def DEFAULT_TAX_CONFIG_def Let_def

lemmas dinner_defs = dinner_def alice_def bob_def charlie_def pizza_def drinks_def

text \<open>
  C2 on the sample session. Alice does not share the drinks. Their service charge is 1.50,
  a third of which would be 0.50, but her contribution to the drinks is zero in all three
  parts, so she owes 11 (pizza 10 and a third of its service charge) and her breakdown
  lists the pizza only.
\<close>

theorem dinner_service_charge_skips_non_sharer:
  "p_id alice \<notin> set (sharedBy drinks)
   \<and> calculateServiceCharge DEFAULT_TAX_CONFIG (totalAmount drinks) = 15 / 10
   \<and> calculateItemContribution DEFAULT_TAX_CONFIG alice drinks (length (participants dinner))
       = Some \<lparr> itemId = ''2'', itemName = ''Drinks'', contribution = 0,
                sstContribution = 0, serviceChargeContribution = 0 \<rparr>
   \<and> map_option (map (\<lambda>b. (name b, totalOwed b, map itemName (itemBreakdown b)))
                  \<circ> result_participants)
        (calculateSession DEFAULT_TAX_CONFIG dinner)
       = Some [(''Alice'', 11, [''Pizza'']),
               (''Bob'', 1945 / 100, [''Pizza'', ''Drinks'']),
               (''Charlie'', 1945 / 100, [''Pizza'', ''Drinks''])]"
  by (simp add: session_eval dinner_defs)

text \<open>
  C3 on the sample session: the amounts owed add up to 49.90 and the amounts paid to 50.40,
  half a ringgit apart, and the net amounts add up to \<open>-0.50\<close>; \<open>validateCalculation\<close>
  rejects the result with both of its errors.
\<close>

theorem dinner_owed_and_paid_differ:
  "map_option (\<lambda>r. (map totalOwed (result_participants r), map totalPaid (result_participants r),
                     map netAmount (result_participants r)))
     (calculateSession DEFAULT_TAX_CONFIG dinner)
   = Some ([11, 1945 / 100, 1945 / 100], [33, 174 / 10, 0], [- 22, 205 / 100, 1945 / 100])
   \<and> map_option validateCalculation (calculateSession DEFAULT_TAX_CONFIG dinner)
   = Some \<lparr> isValid = False,
             errors = [OwedPaidMismatch (499 / 10) (504 / 10), NetSumNotZero (- 1 / 2)] \<rparr>"
  by (simp add: session_eval dinner_defs validateCalculation_def)

text \<open>
  C4 on the sample session: the calculator returns paid, owed and net of 33, 11 and \<open>-22\<close>
  for Alice, 17.40, 19.45 and 2.05 for Bob, and 0, 19.45 and 19.45 for Charlie.
\<close>

theorem dinner_balances:
  "map_option (map (\<lambda>b. (name b, totalPaid b, totalOwed b, netAmount b)) \<circ> result_participants)
     (calculateSession DEFAULT_TAX_CONFIG dinner)
   = Some [(''Alice'', 33, 11, - 22),
           (''Bob'', 174 / 10, 1945 / 100, 205 / 100),
           (''Charlie'', 0, 1945 / 100, 1945 / 100)]"
  by (simp add: session_eval dinner_defs)

section \<open>An item shared by nobody\<close>

lemma forEachM_append:
  "forEachM f s (xs @ ys) = (case forEachM f s xs of None \<Rightarrow> None | Some s' \<Rightarrow> forEachM f s' ys)"
  by (induction xs arbitrary: s) (simp_all split: option.split)

lemma balanceStep_owed_part:
  "map_option (\<lambda>(owed', payed', bd'). (owed', bd')) (balanceStep cfg p n (owed, q1, bd) item)
   = map_option (\<lambda>(owed', payed', bd'). (owed', bd')) (balanceStep cfg p n (owed, q2, bd) item)"
  by (simp add: balanceStep_def Let_def split: option.split)

lemma forEachM_balanceStep_owed_part:
  "map_option (\<lambda>(owed', payed', bd'). (owed', bd')) (forEachM (balanceStep cfg p n) (owed, q1, bd) its)
   = map_option (\<lambda>(owed', payed', bd'). (owed', bd')) (forEachM (balanceStep cfg p n) (owed, q2, bd) its)"
proof (induction its arbitrary: owed q1 q2 bd)
  case Nil
  show ?case by simp
next
  case (Cons item its)
  show ?case
  proof (cases "balanceStep cfg p n (owed, q1, bd) item")
    case None
    with balanceStep_owed_part[of cfg p n owed q1 bd item q2]
    have "balanceStep cfg p n (owed, q2, bd) item = None"
      by simp
    with None show ?thesis by simp
  next
    case (Some s1)
    obtain o1 p1 b1 where s1: "s1 = (o1, p1, b1)"
      by (cases s1)
    from Some balanceStep_owed_part[of cfg p n owed q1 bd item q2]
    obtain p2 where "balanceStep cfg p n (owed, q2, bd) item = Some (o1, p2, b1)"
      by (cases "balanceStep cfg p n (owed, q2, bd) item") (auto simp: s1)
    with Some s1 Cons.IH[of o1 p1 b1 p2] show ?thesis
      by simp
  qed
qed

lemma calculateItemContribution_not_shared:
  assumes "sharedBy item = []"
  shows "calculateItemContribution cfg p item n = Some (noContribution item)"
  using assms by (simp add: calculateItemContribution_def)

lemma balanceStep_not_shared:
  assumes "sharedBy item = []"
  shows "\<exists>payed'. balanceStep cfg p n (owed, payed, bd) item = Some (owed, payed', bd)"
  by (simp add: balanceStep_def calculateItemContribution_not_shared[OF assms]
        noContribution_def Let_def)

lemma forEachM_drop_not_shared:
  assumes "sharedBy item = []"
  shows "map_option (\<lambda>(owed', payed', bd'). (owed', bd'))
           (forEachM (balanceStep cfg p n) s (xs @ item # ys))
         = map_option (\<lambda>(owed', payed', bd'). (owed', bd'))
           (forEachM (balanceStep cfg p n) s (xs @ ys))"
proof (cases "forEachM (balanceStep cfg p n) s xs")
  case None
  then show ?thesis by (simp add: forEachM_append)
next
  case (Some s1)
  obtain o1 p1 b1 where s1: "s1 = (o1, p1, b1)"
    by (cases s1)
  obtain p2 where "balanceStep cfg p n (o1, p1, b1) item = Some (o1, p2, b1)"
    using balanceStep_not_shared[OF assms] by blast
  with Some s1 forEachM_balanceStep_owed_part[of cfg p n o1 p2 b1 ys p1] show ?thesis
    by (simp add: forEachM_append)
qed

lemma calculateParticipantBalance_drop_not_shared:
  assumes "sharedBy item = []"
  shows "map_option totalOwed (calculateParticipantBalance cfg p (xs @ item # ys) n)
         = map_option totalOwed (calculateParticipantBalance cfg p (xs @ ys) n)"
proof -
  let ?proj = "\<lambda>(owed', payed', bd'). (owed', bd')"
  let ?a = "forEachM (balanceStep cfg p n) (0, 0, []) (xs @ item # ys)"
  let ?b = "forEachM (balanceStep cfg p n) (0, 0, []) (xs @ ys)"
  have eq: "map_option ?proj ?a = map_option ?proj ?b"
    using assms by (rule forEachM_drop_not_shared)
  show ?thesis
  proof (cases ?a)
    case None
    with eq have "?b = None" by simp
    with None show ?thesis by (simp add: calculateParticipantBalance_def)
  next
    case (Some sa)
    with eq obtain sb where sb: "?b = Some sb" "?proj sa = ?proj sb"
      by (cases ?b) auto
    with Some show ?thesis
      by (cases sa; cases sb) (simp add: calculateParticipantBalance_def Let_def)
  qed
qed

lemma mapM_map_option:
  assumes "\<And>x. map_option h (f x) = map_option h (g x)"
  shows "map_option (map h) (mapM f xs) = map_option (map h) (mapM g xs)"
proof (induction xs)
  case Nil
  show ?case by simp
next
  case (Cons x xs)
  show ?case
  proof (cases "f x")
    case None
    with assms[of x] have "g x = None" by simp
    with None show ?thesis by simp
  next
    case (Some y)
    with assms[of x] obtain z where "g x = Some z" "h y = h z"
      by (cases "g x") auto
    with Some Cons.IH show ?thesis
      by (cases "mapM f xs"; cases "mapM g xs") auto
  qed
qed

lemma mapM_no_items:
  "map_option (map totalOwed) (mapM (\<lambda>p. calculateParticipantBalance cfg p [] n) ps)
   = Some (map (\<lambda>p. 0) ps)"
  by (induction ps)
     (auto simp: calculateParticipantBalance_def roundToTwoDecimals_def Math_round_def Let_def
        split: option.split)

lemma calculateSession_owed:
  assumes "participants s \<noteq> []" "items s \<noteq> []"
  shows "map_option (map totalOwed \<circ> result_participants) (calculateSession cfg s)
         = map_option (map totalOwed)
             (mapM (\<lambda>p. calculateParticipantBalance cfg p (items s) (length (participants s)))
                (participants s))"
  using assms by (simp add: calculateSession_def Let_def split: option.split)

text \<open>
  C8. For an item whose \<open>sharedBy\<close> is empty, \<open>calculateItemContribution\<close> returns the zero
  contribution for every participant and every participant count, also 0, so neither
  divisor is reached; a round of the balance loop leaves the amount owed and the breakdown
  as they were; \<open>calculateSession\<close> returns a result; and every participant's \<open>totalOwed\<close>
  is what it is for the session without the item.
\<close>

theorem empty_sharedBy_contributes_nothing:
  assumes "sharedBy item = []"
  shows "calculateItemContribution cfg p item n = Some (noContribution item)
    \<and> contribution (noContribution item) = 0
    \<and> sstContribution (noContribution item) = 0
    \<and> serviceChargeContribution (noContribution item) = 0
    \<and> (\<exists>payed'. balanceStep cfg p n (owed, payed, bd) item = Some (owed, payed', bd))
    \<and> calculateSession cfg (s\<lparr>items := xs @ item # ys\<rparr>) \<noteq> None
    \<and> map_option (map totalOwed \<circ> result_participants)
          (calculateSession cfg (s\<lparr>items := xs @ item # ys\<rparr>))
        = map_option (map totalOwed \<circ> result_participants)
          (calculateSession cfg (s\<lparr>items := xs @ ys\<rparr>))"
proof -
  let ?n = "length (participants s)"
  have ret: "calculateSession cfg (s\<lparr>items := xs @ item # ys\<rparr>) \<noteq> None"
    using calculateSession_returns[of cfg "s\<lparr>items := xs @ item # ys\<rparr>"] by auto
  have each: "map_option totalOwed (calculateParticipantBalance cfg q (xs @ item # ys) ?n)
         = map_option totalOwed (calculateParticipantBalance cfg q (xs @ ys) ?n)" for q
    using assms by (rule calculateParticipantBalance_drop_not_shared)
  have all: "map_option (map totalOwed)
          (mapM (\<lambda>q. calculateParticipantBalance cfg q (xs @ item # ys) ?n) (participants s))
        = map_option (map totalOwed)
          (mapM (\<lambda>q. calculateParticipantBalance cfg q (xs @ ys) ?n) (participants s))"
    by (rule mapM_map_option) (rule each)
  have same: "map_option (map totalOwed \<circ> result_participants)
          (calculateSession cfg (s\<lparr>items := xs @ item # ys\<rparr>))
        = map_option (map totalOwed \<circ> result_participants)
          (calculateSession cfg (s\<lparr>items := xs @ ys\<rparr>))"
  proof (cases "participants s = []")
    case True
    then show ?thesis
      by (simp add: calculateSession_def)
  next
    case ps: False
    have long: "map_option (map totalOwed \<circ> result_participants)
          (calculateSession cfg (s\<lparr>items := xs @ item # ys\<rparr>))
        = map_option (map totalOwed)
          (mapM (\<lambda>q. calculateParticipantBalance cfg q (xs @ item # ys) ?n) (participants s))"
      using ps by (simp add: calculateSession_owed)
    show ?thesis
    proof (cases "xs @ ys = []")
      case True
      then have e: "xs = []" "ys = []" by simp_all
      have a: "map_option (map totalOwed \<circ> result_participants)
              (calculateSession cfg (s\<lparr>items := xs @ ys\<rparr>))
            = Some (map (\<lambda>p. 0) (participants s))"
        by (simp add: e calculateSession_def createEmptyResult_def emptyBalance_def comp_def)
      have b: "map_option (map totalOwed)
              (mapM (\<lambda>q. calculateParticipantBalance cfg q (xs @ ys) ?n) (participants s))
            = Some (map (\<lambda>p. 0) (participants s))"
        unfolding e append_Nil by (rule mapM_no_items)
      show ?thesis
        by (simp only: long all b a)
    next
      case False
      with ps have "map_option (map totalOwed \<circ> result_participants)
              (calculateSession cfg (s\<lparr>items := xs @ ys\<rparr>))
            = map_option (map totalOwed)
              (mapM (\<lambda>q. calculateParticipantBalance cfg q (xs @ ys) ?n) (participants s))"
        by (simp add: calculateSession_owed)
      with long all show ?thesis
        by simp
    qed
  qed
  from calculateItemContribution_not_shared[OF assms] balanceStep_not_shared[OF assms] ret same
  show ?thesis
    by (simp add: noContribution_def)
qed

theorem empty_sharedBy_contributes_nothing_witness:
  "sharedBy (drinks\<lparr>sharedBy := []\<rparr>) = []
   \<and> calculateItemContribution DEFAULT_TAX_CONFIG bob (drinks\<lparr>sharedBy := []\<rparr>) 0
       = Some \<lparr> itemId = ''2'', itemName = ''Drinks'', contribution = 0,
                sstContribution = 0, serviceChargeContribution = 0 \<rparr>
   \<and> map_option (map totalOwed \<circ> result_participants)
        (calculateSession DEFAULT_TAX_CONFIG (dinner\<lparr>items := [pizza] @ drinks\<lparr>sharedBy := []\<rparr> # []\<rparr>))
       = Some [11, 11, 11]
   \<and> map_option (map totalOwed \<circ> result_participants)
        (calculateSession DEFAULT_TAX_CONFIG (dinner\<lparr>items := [pizza] @ []\<rparr>))
       = Some [11, 11, 11]"
  using empty_sharedBy_contributes_nothing
          [where item = "drinks\<lparr>sharedBy := []\<rparr>" and cfg = DEFAULT_TAX_CONFIG and p = bob
             and n = 0 and owed = 0 and payed = 0 and bd = "[]" and s = dinner
             and xs = "[pizza]" and ys = "[]"]
  by (simp add: session_eval dinner_defs)

section \<open>SST is read from the stored amount\<close>









section \<open>The matching loop\<close>

lemma settleLoop_Nil [simp]:
  "settleLoop [] cs acc = Some (Inr acc)" "settleLoop ds [] acc = Some (Inr acc)"
  by (subst settleLoop.simps, simp)+

lemma settleLoop_Cons:
  "settleLoop (d # ds) (c # cs) acc =
     (case participant d of
        None \<Rightarrow> Some (Inl TypeError)
      | Some dp \<Rightarrow>
          (case participant c of
             None \<Rightarrow> Some (Inl TypeError)
           | Some cp \<Rightarrow>
               settleLoop
                 (if abs (netAmount d + min \<bar>netAmount d\<bar> (netAmount c)) < 1 / 100 then ds
                  else (d\<lparr>netAmount := netAmount d + min \<bar>netAmount d\<bar> (netAmount c)\<rparr>) # ds)
                 (if abs (netAmount c - min \<bar>netAmount d\<bar> (netAmount c)) < 1 / 100 then cs
                  else (c\<lparr>netAmount := netAmount c - min \<bar>netAmount d\<bar> (netAmount c)\<rparr>) # cs)
                 (acc @ [\<lparr> instr_from = p_name dp, instr_to = p_name cp,
                           instr_amount = roundToTwoDecimals (min \<bar>netAmount d\<bar> (netAmount c)) \<rparr>])))"
  apply (subst settleLoop.simps)
  apply (simp only: Let_def list.sel length_greater_0_conv)
  apply (cases "participant d"; cases "participant c"; simp split del: if_split)
  done

text \<open>
  The state of the loop after one round: the queues of debtors (negative amounts) and of
  creditors (positive amounts) stay so, and one of the two heads has left.
\<close>

lemma settle_round:
  fixes d c :: ParticipantBalance and ds cs :: "ParticipantBalance list"
  assumes d: "netAmount d < 0" and c: "0 < netAmount c"
  defines "pay \<equiv> min \<bar>netAmount d\<bar> (netAmount c)"
  defines "ds2 \<equiv> (if \<bar>netAmount d + pay\<bar> < 1 / 100 then ds
                    else (d\<lparr>netAmount := netAmount d + pay\<rparr>) # ds)"
  defines "cs2 \<equiv> (if \<bar>netAmount c - pay\<bar> < 1 / 100 then cs
                    else (c\<lparr>netAmount := netAmount c - pay\<rparr>) # cs)"
  shows "length ds2 + length cs2 \<le> length ds + length cs + 1"
    and "(\<forall>x\<in>set ds. netAmount x < 0) \<Longrightarrow> (\<forall>x\<in>set ds2. netAmount x < 0)"
    and "(\<forall>x\<in>set cs. 0 < netAmount x) \<Longrightarrow> (\<forall>x\<in>set cs2. 0 < netAmount x)"
    and "participant ` set ds2 \<subseteq> participant ` set (d # ds)"
    and "participant ` set cs2 \<subseteq> participant ` set (c # cs)"
proof -
  have zero: "netAmount d + pay = 0 \<or> netAmount c - pay = 0"
    using d c by (auto simp: pay_def min_def)
  have sign: "netAmount d + pay \<le> 0" "0 \<le> netAmount c - pay"
    using d c by (auto simp: pay_def min_def)
  show "length ds2 + length cs2 \<le> length ds + length cs + 1"
    using zero by (auto simp: ds2_def cs2_def)
  show "(\<forall>x\<in>set ds. netAmount x < 0) \<Longrightarrow> (\<forall>x\<in>set ds2. netAmount x < 0)"
    using sign(1) by (auto simp: ds2_def)
  show "(\<forall>x\<in>set cs. 0 < netAmount x) \<Longrightarrow> (\<forall>x\<in>set cs2. 0 < netAmount x)"
    using sign(2) by (auto simp: cs2_def)
  show "participant ` set ds2 \<subseteq> participant ` set (d # ds)"
    by (auto simp: ds2_def)
  show "participant ` set cs2 \<subseteq> participant ` set (c # cs)"
    by (auto simp: cs2_def)
qed




text \<open>
  Whatever the balances, the \<open>from\<close> of an instruction names a balance with a negative
  net amount and its \<open>to\<close> one with a positive net amount.
\<close>

lemma settleLoop_sides:
  assumes "\<forall>x\<in>set ds. netAmount x < 0" and "\<forall>x\<in>set cs. 0 < netAmount x"
    and "settleLoop ds cs acc = Some (Inr ts)"
  shows "\<forall>i\<in>set ts. i \<in> set acc
           \<or> (\<exists>dp cp. Some dp \<in> participant ` set ds \<and> Some cp \<in> participant ` set cs
                 \<and> instr_from i = p_name dp \<and> instr_to i = p_name cp)"
  using assms
proof (induction "length ds + length cs" arbitrary: ds cs acc rule: less_induct)
  case less
  show ?case
  proof (cases ds)
    case Nil
    with less.prems show ?thesis by simp
  next
    case dCons: (Cons d ds')
    show ?thesis
    proof (cases cs)
      case Nil
      with less.prems show ?thesis by simp
    next
      case cCons: (Cons c cs')
      have d: "netAmount d < 0" and c: "0 < netAmount c"
        using less.prems dCons cCons by simp_all
      from less.prems(3) obtain dp cp where dp: "participant d = Some dp"
        and cp: "participant c = Some cp"
        by (auto simp: dCons cCons settleLoop_Cons split: option.splits)
      define pay where "pay = min \<bar>netAmount d\<bar> (netAmount c)"
      define ds2 where "ds2 = (if \<bar>netAmount d + pay\<bar> < 1 / 100 then ds'
                    else (d\<lparr>netAmount := netAmount d + pay\<rparr>) # ds')"
      define cs2 where "cs2 = (if \<bar>netAmount c - pay\<bar> < 1 / 100 then cs'
                    else (c\<lparr>netAmount := netAmount c - pay\<rparr>) # cs')"
      define new where "new = \<lparr> instr_from = p_name dp, instr_to = p_name cp,
                           instr_amount = roundToTwoDecimals pay \<rparr>"
      have step: "settleLoop ds cs acc = settleLoop ds2 cs2 (acc @ [new])"
        unfolding dCons cCons settleLoop_Cons dp cp ds2_def cs2_def new_def pay_def
        by simp
      have len: "length ds2 + length cs2 \<le> length ds' + length cs' + 1"
        unfolding ds2_def cs2_def pay_def using d c by (rule settle_round(1))
      have neg: "\<forall>x\<in>set ds2. netAmount x < 0"
        unfolding ds2_def pay_def using d c
        by (rule settle_round(2)) (use less.prems dCons in simp)
      have pos: "\<forall>x\<in>set cs2. 0 < netAmount x"
        unfolding cs2_def pay_def using d c
        by (rule settle_round(3)) (use less.prems cCons in simp)
      have parts: "participant ` set ds2 \<subseteq> participant ` set ds"
        "participant ` set cs2 \<subseteq> participant ` set cs"
        unfolding ds2_def cs2_def pay_def dCons cCons
        using d c by (rule settle_round(4) settle_round(5))+
      have "length ds2 + length cs2 < length ds + length cs"
        using len by (simp add: dCons cCons)
      from less.hyps[OF this neg pos, of "acc @ [new]"] less.prems(3) step
      have ih: "\<forall>i\<in>set ts. i \<in> set (acc @ [new])
           \<or> (\<exists>dp cp. Some dp \<in> participant ` set ds2 \<and> Some cp \<in> participant ` set cs2
                 \<and> instr_from i = p_name dp \<and> instr_to i = p_name cp)"
        by simp
      have here: "Some dp \<in> participant ` set ds" "Some cp \<in> participant ` set cs"
        using dp cp by (auto simp: dCons cCons image_iff intro: sym)
      show ?thesis
      proof
        fix i assume "i \<in> set ts"
        with ih consider "i \<in> set acc" | "i = new"
          | "\<exists>dp cp. Some dp \<in> participant ` set ds2 \<and> Some cp \<in> participant ` set cs2
                 \<and> instr_from i = p_name dp \<and> instr_to i = p_name cp"
          by auto
        then show "i \<in> set acc
           \<or> (\<exists>dp cp. Some dp \<in> participant ` set ds \<and> Some cp \<in> participant ` set cs
                 \<and> instr_from i = p_name dp \<and> instr_to i = p_name cp)"
        proof cases
          case 1
          then show ?thesis by simp
        next
          case 2
          with here show ?thesis by (auto simp: new_def)
        next
          case 3
          with parts show ?thesis by blast
        qed
      qed
    qed
  qed
qed

lemma generatePaymentInstructions_sides:
  assumes "generatePaymentInstructions bs = Some (Inr ts)" and "i \<in> set ts"
  shows "\<exists>d c dp cp. d \<in> set bs \<and> netAmount d < 0 \<and> participant d = Some dp
           \<and> instr_from i = p_name dp
           \<and> c \<in> set bs \<and> 0 < netAmount c \<and> participant c = Some cp
           \<and> instr_to i = p_name cp"
proof -
  let ?ds = "filter (\<lambda>b. netAmount b < 0) bs" and ?cs = "filter (\<lambda>b. 0 < netAmount b) bs"
  have signs: "\<forall>x\<in>set ?ds. netAmount x < 0" "\<forall>x\<in>set ?cs. 0 < netAmount x"
    by simp_all
  have run: "settleLoop ?ds ?cs [] = Some (Inr ts)"
    using assms(1) by (simp add: generatePaymentInstructions_def)
  have "\<forall>i\<in>set ts. i \<in> set []
           \<or> (\<exists>dp cp. Some dp \<in> participant ` set ?ds \<and> Some cp \<in> participant ` set ?cs
                 \<and> instr_from i = p_name dp \<and> instr_to i = p_name cp)"
    using signs run by (rule settleLoop_sides)
  with assms(2) obtain dp cp where "Some dp \<in> participant ` set ?ds"
    "Some cp \<in> participant ` set ?cs" "instr_from i = p_name dp" "instr_to i = p_name cp"
    by fastforce
  then show ?thesis
    by (auto simp: image_iff) metis
qed

text \<open>
  C1 at two balances. Alice's net amount is 10 (she owes), Bob's is \<open>-10\<close> (he is owed).
  The instruction returned has Bob, whose net amount is negative, as \<open>from\<close> and Alice as
  \<open>to\<close>.
\<close>

theorem generatePaymentInstructions_payer_is_the_one_owed:
  "netAmount aliceOwes = 10 \<and> netAmount bobIsOwed = - 10
   \<and> generatePaymentInstructions [aliceOwes, bobIsOwed]
       = Some (Inr [\<lparr> instr_from = ''Bob'', instr_to = ''Alice'', instr_amount = 10 \<rparr>])"
  by (simp add: generatePaymentInstructions_def settleLoop_Cons aliceOwes_def bobIsOwed_def
        alice_def bob_def roundToTwoDecimals_def Math_round_def)



section \<open>The input of the matching loop is left as it was\<close>

lemma copyEach_closed:
  assumes "\<forall>r\<in>set rs. r < length (objs h)"
  shows "copyEach h rs =
     (h\<lparr>objs := objs h @ map (\<lambda>r. objs h ! r) rs\<rparr>,
      [length (objs h) ..< length (objs h) + length rs])"
  using assms
proof (induction rs arbitrary: h)
  case Nil
  show ?case by simp
next
  case (Cons r rs)
  let ?h1 = "h\<lparr>objs := objs h @ [objs h ! r]\<rparr>"
  have valid: "\<forall>x\<in>set rs. x < length (objs ?h1)"
    using Cons.prems by auto
  have same: "map (\<lambda>x. (objs h @ [objs h ! r]) ! x) rs = map (\<lambda>x. objs h ! x) rs"
    using Cons.prems by (auto simp: nth_append)
  have up: "[length (objs h) ..< length (objs h) + length (r # rs)]
            = length (objs h) # [Suc (length (objs h)) ..< Suc (length (objs h)) + length rs]"
    using upt_conv_Cons[of "length (objs h)" "length (objs h) + length (r # rs)"] by simp
  have "copyEach h (r # rs) = (case copyEach ?h1 rs of (h2, rs') \<Rightarrow> (h2, length (objs h) # rs'))"
    by (simp add: newObject_def)
  also have "\<dots> = (?h1\<lparr>objs := objs ?h1 @ map (\<lambda>r. objs ?h1 ! r) rs\<rparr>,
      length (objs h) # [length (objs ?h1) ..< length (objs ?h1) + length rs])"
    unfolding Cons.IH[OF valid] by simp
  also have "\<dots> = (h\<lparr>objs := objs h @ map (\<lambda>r. objs h ! r) (r # rs)\<rparr>,
      [length (objs h) ..< length (objs h) + length (r # rs)])"
    unfolding up using same by simp
  finally show ?case .
qed

lemma settleLoop_store_stop:
  "arrs h ! dA = [] \<or> arrs h ! cA = [] \<Longrightarrow> settleLoop_store h dA cA acc = Some (h, Inr acc)"
  by (subst settleLoop_store.simps) auto

lemma settleLoop_store_Cons:
  assumes "arrs h ! dA = d # D" "arrs h ! cA = c # C"
  shows "settleLoop_store h dA cA acc =
     (case participant (objs h ! d) of
        None \<Rightarrow> Some (h, Inl TypeError)
      | Some dp \<Rightarrow>
          (case participant (objs h ! c) of
             None \<Rightarrow> Some (h, Inl TypeError)
           | Some cp \<Rightarrow>
               (let pay = min \<bar>netAmount (objs h ! d)\<bar> (netAmount (objs h ! c));
                    h1 = setNetAmount h d (netAmount (objs h ! d) + pay);
                    h2 = setNetAmount h1 c (netAmount (objs h1 ! c) - pay);
                    h3 = (if \<bar>netAmount (objs h2 ! d)\<bar> < 1 / 100 then shift h2 dA else h2);
                    h4 = (if \<bar>netAmount (objs h3 ! c)\<bar> < 1 / 100 then shift h3 cA else h3)
                in settleLoop_store h4 dA cA
                     (acc @ [\<lparr> instr_from = p_name dp, instr_to = p_name cp,
                               instr_amount = roundToTwoDecimals pay \<rparr>]))))"
  apply (subst settleLoop_store.simps)
  apply (simp only: assms Let_def list.sel length_greater_0_conv)
  apply (cases "participant (objs h ! d)"; cases "participant (objs h ! c)";
         simp split del: if_split)
  done

text \<open>
  One round on the store: the two writes and the two conditional shifts, and what the
  queues hold afterwards.
\<close>

lemma store_round:
  fixes h :: store
  assumes dA: "arrs h ! dA = d # D" and cA: "arrs h ! cA = c # C"
    and len: "dA < length (arrs h)" "cA < length (arrs h)" and ne: "dA \<noteq> cA"
    and dist: "distinct ((d # D) @ (c # C))"
    and valid: "\<forall>r\<in>set ((d # D) @ (c # C)). r < length (objs h)"
  defines "pay \<equiv> min \<bar>netAmount (objs h ! d)\<bar> (netAmount (objs h ! c))"
  defines "h1 \<equiv> setNetAmount h d (netAmount (objs h ! d) + pay)"
  defines "h2 \<equiv> setNetAmount h1 c (netAmount (objs h1 ! c) - pay)"
  defines "h3 \<equiv> (if \<bar>netAmount (objs h2 ! d)\<bar> < 1 / 100 then shift h2 dA else h2)"
  defines "h4 \<equiv> (if \<bar>netAmount (objs h3 ! c)\<bar> < 1 / 100 then shift h3 cA else h3)"
  shows "map (\<lambda>r. objs h4 ! r) (arrs h4 ! dA)
         = (if \<bar>netAmount (objs h ! d) + pay\<bar> < 1 / 100 then map (\<lambda>r. objs h ! r) D
            else ((objs h ! d)\<lparr>netAmount := netAmount (objs h ! d) + pay\<rparr>)
                 # map (\<lambda>r. objs h ! r) D)"
    and "map (\<lambda>r. objs h4 ! r) (arrs h4 ! cA)
         = (if \<bar>netAmount (objs h ! c) - pay\<bar> < 1 / 100 then map (\<lambda>r. objs h ! r) C
            else ((objs h ! c)\<lparr>netAmount := netAmount (objs h ! c) - pay\<rparr>)
                 # map (\<lambda>r. objs h ! r) C)"
    and "length (objs h4) = length (objs h)" and "length (arrs h4) = length (arrs h)"
    and "set (arrs h4 ! dA) \<subseteq> set (d # D)" and "set (arrs h4 ! cA) \<subseteq> set (c # C)"
    and "distinct (arrs h4 ! dA @ arrs h4 ! cA)"
    and "no \<le> d \<Longrightarrow> no \<le> c \<Longrightarrow> take no (objs h4) = take no (objs h)"
    and "na \<le> dA \<Longrightarrow> na \<le> cA \<Longrightarrow> take na (arrs h4) = take na (arrs h)"
proof -
  have dc: "d \<noteq> c" "d < length (objs h)" "c < length (objs h)"
    using dist valid by auto
  have o2: "objs h2 = (objs h)[d := (objs h ! d)\<lparr>netAmount := netAmount (objs h ! d) + pay\<rparr>,
                              c := (objs h ! c)\<lparr>netAmount := netAmount (objs h ! c) - pay\<rparr>]"
    using dc by (simp add: h2_def h1_def setNetAmount_def)
  have a2: "arrs h2 = arrs h"
    by (simp add: h2_def h1_def setNetAmount_def)
  have o4: "objs h4 = objs h2"
    by (simp add: h4_def h3_def shift_def)
  have at_d: "objs h2 ! d = (objs h ! d)\<lparr>netAmount := netAmount (objs h ! d) + pay\<rparr>"
    and at_c: "objs h2 ! c = (objs h ! c)\<lparr>netAmount := netAmount (objs h ! c) - pay\<rparr>"
    using dc by (simp_all add: o2)
  have other: "objs h2 ! r = objs h ! r" if "r \<in> set D \<union> set C" for r
  proof -
    have "r \<noteq> d" "r \<noteq> c"
      using that dist by auto
    then show ?thesis
      by (simp add: o2)
  qed
  have rest: "map (\<lambda>r. objs h2 ! r) D = map (\<lambda>r. objs h ! r) D"
    "map (\<lambda>r. objs h2 ! r) C = map (\<lambda>r. objs h ! r) C"
    using other by simp_all
  have o3: "objs h3 = objs h2"
    by (simp add: h3_def shift_def)
  have a4d: "arrs h4 ! dA = (if \<bar>netAmount (objs h ! d) + pay\<bar> < 1 / 100 then D else d # D)"
    using len ne dA by (simp add: h4_def h3_def shift_def a2 at_d)
  have a4c: "arrs h4 ! cA = (if \<bar>netAmount (objs h ! c) - pay\<bar> < 1 / 100 then C else c # C)"
    using len ne cA by (simp add: h4_def h3_def shift_def a2 o3 at_c)
  show "map (\<lambda>r. objs h4 ! r) (arrs h4 ! dA)
         = (if \<bar>netAmount (objs h ! d) + pay\<bar> < 1 / 100 then map (\<lambda>r. objs h ! r) D
            else ((objs h ! d)\<lparr>netAmount := netAmount (objs h ! d) + pay\<rparr>)
                 # map (\<lambda>r. objs h ! r) D)"
    by (simp add: a4d o4 rest at_d)
  show "map (\<lambda>r. objs h4 ! r) (arrs h4 ! cA)
         = (if \<bar>netAmount (objs h ! c) - pay\<bar> < 1 / 100 then map (\<lambda>r. objs h ! r) C
            else ((objs h ! c)\<lparr>netAmount := netAmount (objs h ! c) - pay\<rparr>)
                 # map (\<lambda>r. objs h ! r) C)"
    by (simp add: a4c o4 rest at_c)
  show "length (objs h4) = length (objs h)"
    by (simp add: o4 o2)
  show "length (arrs h4) = length (arrs h)"
    by (simp add: h4_def h3_def shift_def a2)
  show "set (arrs h4 ! dA) \<subseteq> set (d # D)"
    by (auto simp: a4d)
  show "set (arrs h4 ! cA) \<subseteq> set (c # C)"
    by (auto simp: a4c)
  show "distinct (arrs h4 ! dA @ arrs h4 ! cA)"
    using dist by (auto simp: a4d a4c)
  show "take no (objs h4) = take no (objs h)" if "no \<le> d" "no \<le> c"
    using that by (simp add: o4 o2)
  show "take na (arrs h4) = take na (arrs h)" if "na \<le> dA" "na \<le> cA"
    using that by (simp add: h4_def h3_def shift_def a2)
qed

lemma settleLoop_store_simulates:
  assumes "dA < length (arrs h)" "cA < length (arrs h)" "dA \<noteq> cA"
    and "distinct (arrs h ! dA @ arrs h ! cA)"
    and "\<forall>r\<in>set (arrs h ! dA @ arrs h ! cA). no \<le> r \<and> r < length (objs h)"
    and "na \<le> dA" "na \<le> cA"
    and "\<forall>r\<in>set (arrs h ! dA). netAmount (objs h ! r) < 0"
    and "\<forall>r\<in>set (arrs h ! cA). 0 < netAmount (objs h ! r)"
  shows "\<exists>h' r. settleLoop_store h dA cA acc = Some (h', r)
          \<and> settleLoop (map (\<lambda>r. objs h ! r) (arrs h ! dA))
                        (map (\<lambda>r. objs h ! r) (arrs h ! cA)) acc = Some r
          \<and> take no (objs h') = take no (objs h) \<and> take na (arrs h') = take na (arrs h)"
  using assms
proof (induction "length (arrs h ! dA) + length (arrs h ! cA)" arbitrary: h acc rule: less_induct)
  case less
  show ?case
  proof (cases "arrs h ! dA")
    case Nil
    then show ?thesis
      by (simp add: settleLoop_store_stop)
  next
    case dCons: (Cons d D)
    show ?thesis
    proof (cases "arrs h ! cA")
      case Nil
      then show ?thesis
        by (simp add: settleLoop_store_stop)
    next
      case cCons: (Cons c C)
      let ?od = "objs h ! d" and ?oc = "objs h ! c"
      let ?ds = "map (\<lambda>r. objs h ! r) D" and ?cs = "map (\<lambda>r. objs h ! r) C"
      have sd: "netAmount ?od < 0" and sc: "0 < netAmount ?oc"
        using less.prems(8,9) dCons cCons by simp_all
      show ?thesis
      proof (cases "participant ?od")
        case None
        then show ?thesis
          by (simp add: settleLoop_store_Cons[OF dCons cCons] dCons cCons settleLoop_Cons)
      next
        case dp: (Some dp)
        show ?thesis
        proof (cases "participant ?oc")
          case None
          then show ?thesis
            by (simp add: settleLoop_store_Cons[OF dCons cCons] dCons cCons settleLoop_Cons dp)
        next
          case cp: (Some cp)
          define pay where "pay = min \<bar>netAmount ?od\<bar> (netAmount ?oc)"
          define h1 where "h1 = setNetAmount h d (netAmount ?od + pay)"
          define h2 where "h2 = setNetAmount h1 c (netAmount (objs h1 ! c) - pay)"
          define h3 where "h3 = (if \<bar>netAmount (objs h2 ! d)\<bar> < 1 / 100 then shift h2 dA else h2)"
          define h4 where "h4 = (if \<bar>netAmount (objs h3 ! c)\<bar> < 1 / 100 then shift h3 cA else h3)"
          define ds2 where "ds2 = (if \<bar>netAmount ?od + pay\<bar> < 1 / 100 then ?ds
                    else (?od\<lparr>netAmount := netAmount ?od + pay\<rparr>) # ?ds)"
          define cs2 where "cs2 = (if \<bar>netAmount ?oc - pay\<bar> < 1 / 100 then ?cs
                    else (?oc\<lparr>netAmount := netAmount ?oc - pay\<rparr>) # ?cs)"
          define acc2 where "acc2 = acc @ [\<lparr> instr_from = p_name dp, instr_to = p_name cp,
                           instr_amount = roundToTwoDecimals pay \<rparr>]"
          have dist: "distinct ((d # D) @ (c # C))"
            using less.prems(4) by (simp only: dCons cCons)
          have valid: "\<forall>r\<in>set ((d # D) @ (c # C)). r < length (objs h)"
            using less.prems(5) by (simp only: dCons cCons) blast
          have lower: "\<forall>r\<in>set ((d # D) @ (c # C)). no \<le> r"
            using less.prems(5) by (simp only: dCons cCons) blast
          note round = store_round[OF dCons cCons less.prems(1,2,3) dist valid,
              folded pay_def, folded h1_def, folded h2_def, folded h3_def, folded h4_def]
          have vd: "map (\<lambda>r. objs h4 ! r) (arrs h4 ! dA) = ds2"
            and vc: "map (\<lambda>r. objs h4 ! r) (arrs h4 ! cA) = cs2"
            unfolding ds2_def cs2_def by (rule round(1) round(2))+
          have store_step: "settleLoop_store h dA cA acc = settleLoop_store h4 dA cA acc2"
            unfolding settleLoop_store_Cons[OF dCons cCons] dp cp option.case Let_def
              h4_def h3_def h2_def h1_def acc2_def pay_def ..
          have pure_step: "settleLoop (?od # ?ds) (?oc # ?cs) acc = settleLoop ds2 cs2 acc2"
            unfolding settleLoop_Cons dp cp option.case ds2_def cs2_def acc2_def pay_def ..
          have shorter: "length ds2 + length cs2 \<le> length ?ds + length ?cs + 1"
            unfolding ds2_def cs2_def pay_def using sd sc by (rule settle_round(1))
          have neg: "\<forall>x\<in>set ds2. netAmount x < 0"
            unfolding ds2_def pay_def using sd sc
            by (rule settle_round(2)) (use less.prems(8) dCons in simp)
          have pos: "\<forall>x\<in>set cs2. 0 < netAmount x"
            unfolding cs2_def pay_def using sd sc
            by (rule settle_round(3)) (use less.prems(9) cCons in simp)
          have m: "length (arrs h4 ! dA) + length (arrs h4 ! cA)
                   < length (arrs h ! dA) + length (arrs h ! cA)"
            using shorter arg_cong[OF vd, of length] arg_cong[OF vc, of length]
            by (simp add: dCons cCons)
          have p1: "dA < length (arrs h4)" "cA < length (arrs h4)"
            using less.prems(1,2) by (simp_all add: round(4))
          have p4: "distinct (arrs h4 ! dA @ arrs h4 ! cA)"
            by (rule round(7))
          have p5: "\<forall>r\<in>set (arrs h4 ! dA @ arrs h4 ! cA). no \<le> r \<and> r < length (objs h4)"
            using round(5) round(6) valid lower by (auto simp: round(3))
          have p8: "\<forall>r\<in>set (arrs h4 ! dA). netAmount (objs h4 ! r) < 0"
            using neg unfolding vd[symmetric] by simp
          have p9: "\<forall>r\<in>set (arrs h4 ! cA). 0 < netAmount (objs h4 ! r)"
            using pos unfolding vc[symmetric] by simp
          from less.hyps[OF m p1 less.prems(3) p4 p5 less.prems(6,7) p8 p9, of acc2]
          obtain h' r where run: "settleLoop_store h4 dA cA acc2 = Some (h', r)"
            and pure: "settleLoop ds2 cs2 acc2 = Some r"
            and frame: "take no (objs h') = take no (objs h4)" "take na (arrs h') = take na (arrs h4)"
            unfolding vd vc by blast
          have "take no (objs h4) = take no (objs h)"
            using lower by (intro round(8)) simp_all
          moreover have "take na (arrs h4) = take na (arrs h)"
            using less.prems(6,7) by (rule round(9))
          ultimately show ?thesis
            using run pure frame store_step pure_step
            by (simp add: dCons cCons)
        qed
      qed
    qed
  qed
qed

lemma nth_copies:
  "map (\<lambda>r. (xs @ ys @ zs) ! r) [length xs ..< length xs + length ys] = ys"
proof -
  have "[length xs ..< length xs + length ys] = map (\<lambda>i. i + length xs) [0 ..< length ys]"
    by (simp add: map_add_upt add.commute)
  then have "map (\<lambda>r. (xs @ ys @ zs) ! r) [length xs ..< length xs + length ys]
        = map (\<lambda>i. (xs @ ys @ zs) ! (i + length xs)) [0 ..< length ys]"
    by (simp add: comp_def)
  also have "\<dots> = map (\<lambda>i. ys ! i) [0 ..< length ys]"
    by (intro map_cong) (auto simp: nth_append)
  also have "\<dots> = ys"
    by (rule map_nth)
  finally show ?thesis .
qed

lemma store_setup:
  assumes "balances < length (arrs h)" and "\<forall>r\<in>set (arrs h ! balances). r < length (objs h)"
  defines "N \<equiv> filter (\<lambda>r. netAmount (objs h ! r) < 0) (arrs h ! balances)"
  defines "P \<equiv> filter (\<lambda>r. 0 < netAmount (objs h ! r)) (arrs h ! balances)"
  defines "no \<equiv> length (objs h)"
  shows "generatePaymentInstructions_store h balances
         = settleLoop_store
             (h\<lparr>objs := objs h @ map (\<lambda>r. objs h ! r) N @ map (\<lambda>r. objs h ! r) P,
                arrs := arrs h @ [N, [no ..< no + length N], P,
                                  [no + length N ..< no + length N + length P]]\<rparr>)
             (length (arrs h) + 1) (length (arrs h) + 3) []"
proof -
  let ?na = "length (arrs h)"
  let ?cN = "map (\<lambda>r. objs h ! r) N" and ?cP = "map (\<lambda>r. objs h ! r) P"
  have vN: "\<forall>r\<in>set N. r < length (objs h)" and vP: "\<forall>r\<in>set P. r < length (objs h)"
    using assms(2) by (auto simp: N_def P_def)
  define h1 where "h1 = h\<lparr>arrs := arrs h @ [N]\<rparr>"
  have f1: "filterArray (\<lambda>b. netAmount b < 0) h balances = (h1, ?na)"
    by (simp add: filterArray_def newArray_def h1_def N_def)
  define h2 where "h2 = h\<lparr>objs := objs h @ ?cN, arrs := arrs h @ [N, [no ..< no + length N]]\<rparr>"
  have "copyEach h1 N = (h1\<lparr>objs := objs h1 @ map (\<lambda>r. objs h1 ! r) N\<rparr>,
                          [length (objs h1) ..< length (objs h1) + length N])"
    by (rule copyEach_closed) (use vN in \<open>simp add: h1_def\<close>)
  then have m1: "mapCopy h1 ?na = (h2, ?na + 1)"
    by (simp add: mapCopy_def newArray_def h1_def h2_def no_def)
  define h3 where "h3 = h2\<lparr>arrs := arrs h2 @ [P]\<rparr>"
  have "filter (\<lambda>r. 0 < netAmount (objs h2 ! r)) (arrs h2 ! balances) = P"
    unfolding P_def using assms(1,2)
    by (auto simp: h2_def nth_append intro!: filter_cong)
  then have f2: "filterArray (\<lambda>b. netAmount b > 0) h2 balances = (h3, ?na + 2)"
    by (simp add: filterArray_def newArray_def h3_def h2_def)
  define h4 where "h4 = h\<lparr>objs := objs h @ ?cN @ ?cP,
                arrs := arrs h @ [N, [no ..< no + length N], P,
                                  [no + length N ..< no + length N + length P]]\<rparr>"
  have "copyEach h3 P = (h3\<lparr>objs := objs h3 @ map (\<lambda>r. objs h3 ! r) P\<rparr>,
                          [length (objs h3) ..< length (objs h3) + length P])"
    by (rule copyEach_closed) (use vP in \<open>auto simp: h3_def h2_def intro: trans_less_add1\<close>)
  moreover have "map (\<lambda>r. objs h3 ! r) P = ?cP"
    using vP by (simp add: h3_def h2_def nth_append)
  ultimately have m2: "mapCopy h3 (?na + 2) = (h4, ?na + 3)"
    by (simp add: mapCopy_def newArray_def h3_def h2_def h4_def no_def nth_append)
  show ?thesis
    unfolding generatePaymentInstructions_store_def f1 prod.case m1 f2 m2 h4_def ..
qed

text \<open>
  C10. Run on a store in which \<open>balances\<close> is an array of valid references,
  \<open>generatePaymentInstructions\<close> returns the instructions that the model on values
  computes for the referenced balances, and every object and every array that was in the
  store before the call is the same afterwards: the input array, and each balance in it
  with its \<open>netAmount\<close> and all its other fields. The writes and shifts of the loop land
  on the objects and arrays made by \<open>filter\<close> and \<open>map\<close>, which lie behind the old ones.
\<close>

theorem generatePaymentInstructions_store_frame:
  assumes "balances < length (arrs h)" and "\<forall>r\<in>set (arrs h ! balances). r < length (objs h)"
  shows "\<exists>h' r. generatePaymentInstructions_store h balances = Some (h', r)
     \<and> generatePaymentInstructions (map (\<lambda>r. objs h ! r) (arrs h ! balances)) = Some r
     \<and> take (length (objs h)) (objs h') = objs h
     \<and> take (length (arrs h)) (arrs h') = arrs h"
proof -
  define N where "N = filter (\<lambda>r. netAmount (objs h ! r) < 0) (arrs h ! balances)"
  define P where "P = filter (\<lambda>r. 0 < netAmount (objs h ! r)) (arrs h ! balances)"
  define no where "no = length (objs h)"
  define na where "na = length (arrs h)"
  let ?cN = "map (\<lambda>r. objs h ! r) N" and ?cP = "map (\<lambda>r. objs h ! r) P"
  define h4 where "h4 = h\<lparr>objs := objs h @ ?cN @ ?cP,
                arrs := arrs h @ [N, [no ..< no + length N], P,
                                  [no + length N ..< no + length N + length P]]\<rparr>"
  have start: "generatePaymentInstructions_store h balances = settleLoop_store h4 (na + 1) (na + 3) []"
    unfolding h4_def N_def P_def no_def na_def using assms by (rule store_setup)
  have dA: "arrs h4 ! (na + 1) = [no ..< no + length N]"
    and cA: "arrs h4 ! (na + 3) = [no + length N ..< no + length N + length P]"
    by (simp_all add: h4_def na_def nth_append)
  have vd: "map (\<lambda>r. objs h4 ! r) (arrs h4 ! (na + 1)) = ?cN"
    and vc: "map (\<lambda>r. objs h4 ! r) (arrs h4 ! (na + 3)) = ?cP"
    unfolding dA cA
    using nth_copies[of "objs h" ?cN ?cP] nth_copies[of "objs h @ ?cN" ?cP "[]"]
    by (simp_all add: h4_def no_def)
  have q1: "na + 1 < length (arrs h4)" "na + 3 < length (arrs h4)" "na + 1 \<noteq> na + 3"
    by (simp_all add: h4_def na_def)
  have q4: "distinct (arrs h4 ! (na + 1) @ arrs h4 ! (na + 3))"
    unfolding dA cA by auto
  have q5: "\<forall>r\<in>set (arrs h4 ! (na + 1) @ arrs h4 ! (na + 3)). no \<le> r \<and> r < length (objs h4)"
    unfolding dA cA by (auto simp: h4_def no_def)
  have q6: "na \<le> na + 1" "na \<le> na + 3"
    by simp_all
  have "\<forall>x\<in>set ?cN. netAmount x < 0"
    by (auto simp: N_def)
  then have q8: "\<forall>r\<in>set (arrs h4 ! (na + 1)). netAmount (objs h4 ! r) < 0"
    unfolding vd[symmetric] by simp
  have "\<forall>x\<in>set ?cP. 0 < netAmount x"
    by (auto simp: P_def)
  then have q9: "\<forall>r\<in>set (arrs h4 ! (na + 3)). 0 < netAmount (objs h4 ! r)"
    unfolding vc[symmetric] by simp
  from settleLoop_store_simulates[OF q1 q4 q5 q6 q8 q9, of "[]"]
  obtain h' r where run: "settleLoop_store h4 (na + 1) (na + 3) [] = Some (h', r)"
    and pure: "settleLoop ?cN ?cP [] = Some r"
    and frame: "take no (objs h') = take no (objs h4)" "take na (arrs h') = take na (arrs h4)"
    unfolding vd vc by blast
  have "generatePaymentInstructions (map (\<lambda>r. objs h ! r) (arrs h ! balances)) = Some r"
    using pure by (simp add: generatePaymentInstructions_def N_def P_def filter_map comp_def)
  moreover have "take no (objs h4) = objs h" "take na (arrs h4) = arrs h"
    by (simp_all add: h4_def no_def na_def)
  ultimately show ?thesis
    using start run frame by (simp add: no_def na_def)
qed

theorem generatePaymentInstructions_store_frame_witness:
  "0 < length (arrs twoBalances)
   \<and> objs twoBalances = [aliceOwes, bobIsOwed] \<and> arrs twoBalances = [[0, 1]]
   \<and> (\<exists>h'. generatePaymentInstructions_store twoBalances 0
              = Some (h', Inr [\<lparr> instr_from = ''Bob'', instr_to = ''Alice'', instr_amount = 10 \<rparr>])
           \<and> take (length (objs twoBalances)) (objs h') = objs twoBalances
           \<and> take (length (arrs twoBalances)) (arrs h') = arrs twoBalances)"
proof -
  have a: "0 < length (arrs twoBalances)"
    and b: "\<forall>r\<in>set (arrs twoBalances ! 0). r < length (objs twoBalances)"
    and v: "objs twoBalances = [aliceOwes, bobIsOwed]" "arrs twoBalances = [[0, 1]]"
    by (simp_all add: twoBalances_def)
  have "generatePaymentInstructions [aliceOwes, bobIsOwed]
           = Some (Inr [\<lparr> instr_from = ''Bob'', instr_to = ''Alice'', instr_amount = 10 \<rparr>])"
    by (simp add: generatePaymentInstructions_def settleLoop_Cons aliceOwes_def
          bobIsOwed_def alice_def bob_def roundToTwoDecimals_def Math_round_def)
  then have c: "generatePaymentInstructions (map (\<lambda>r. objs twoBalances ! r) (arrs twoBalances ! 0))
           = Some (Inr [\<lparr> instr_from = ''Bob'', instr_to = ''Alice'', instr_amount = 10 \<rparr>])"
    by (simp add: twoBalances_def)
  from generatePaymentInstructions_store_frame[OF a b]
  obtain h' r where "generatePaymentInstructions_store twoBalances 0 = Some (h', r)"
    "generatePaymentInstructions (map (\<lambda>r. objs twoBalances ! r) (arrs twoBalances ! 0)) = Some r"
    "take (length (objs twoBalances)) (objs h') = objs twoBalances"
    "take (length (arrs twoBalances)) (arrs h') = arrs twoBalances"
    by blast
  with c have "generatePaymentInstructions_store twoBalances 0
              = Some (h', Inr [\<lparr> instr_from = ''Bob'', instr_to = ''Alice'', instr_amount = 10 \<rparr>])
           \<and> take (length (objs twoBalances)) (objs h') = objs twoBalances
           \<and> take (length (arrs twoBalances)) (arrs h') = arrs twoBalances"
    by simp
  with a v show ?thesis
    by blast
qed

end
